theory Spec2Isabelle
  imports Complex_Main "HOL-Library.AList"
begin

section \<open>Machine integers\<close>

text \<open>
  The source computes positions and counts in \<open>size_t\<close> and identifiers in
  \<open>uint64_t\<close>, both 64-bit unsigned on the targets the program is built for.
  They are modelled as \<open>nat\<close>, with the wrap-around written out wherever the source
  adds, subtracts or casts a value that is not bounded by a container size.
  The simulated times are \<open>double\<close> in the source and \<open>real\<close> here: the model keeps
  the source's formulas and their order of accumulation, and idealises rounding.
\<close>

definition size_add :: "nat \<Rightarrow> nat \<Rightarrow> nat" where
  "size_add a b = (a + b) mod 2 ^ 64"

definition size_sub :: "nat \<Rightarrow> nat \<Rightarrow> nat" where
  "size_sub a b = nat ((int a - int b) mod 2 ^ 64)"

definition size_of_int :: "int \<Rightarrow> nat" where
  "size_of_int x = nat (x mod 2 ^ 64)"

text \<open>\<open>static_cast<int64_t>\<close> of an unsigned 64-bit value: two's complement.\<close>

definition int64_of :: "nat \<Rightarrow> int" where
  "int64_of x = (if x mod 2 ^ 64 < 2 ^ 63 then int (x mod 2 ^ 64) else int (x mod 2 ^ 64) - 2 ^ 64)"

text \<open>\<open>std::string::npos\<close>, the value the strategies return for "not found".\<close>

definition npos :: nat where
  "npos = 2 ^ 64 - 1"

text \<open>
  A \<open>std::vector\<close> never holds more than \<open>max_size()\<close> elements, which is at most
  \<open>PTRDIFF_MAX\<close>.
\<close>

definition max_size :: nat where
  "max_size = 2 ^ 63 - 1"

section \<open>Blocks and the tape device\<close>

record TapeBlock =
  block_id :: nat
  data :: "nat list"
  is_index_block :: bool

record TapeDevice =
  block_size :: nat
  read_speed :: real
  write_speed :: real
  seek_time_per_block :: real
  current_position :: nat
  blocks :: "TapeBlock list"

datatype error = OutOfRange | InvalidArgument | DivisionByZero

text \<open>
  An operation that can throw returns the error or its value together with the device
  as the call leaves it, so that what a failing call did to the device is part of the
  model.
\<close>

definition TapeDevice_new :: "nat \<Rightarrow> real \<Rightarrow> real \<Rightarrow> real \<Rightarrow> TapeDevice" where
  "TapeDevice_new bs rs ws st =
     \<lparr>block_size = bs, read_speed = rs, write_speed = ws, seek_time_per_block = st,
      current_position = 0, blocks = []\<rparr>"

definition write_block :: "TapeBlock \<Rightarrow> TapeDevice \<Rightarrow> real \<times> TapeDevice" where
  "write_block block tape =
     (let tape1 = tape\<lparr>blocks := blocks tape @ [block]\<rparr>;
          time = real (length (data block)) / write_speed tape
      in (time, tape1))"

definition read_current_block :: "TapeDevice \<Rightarrow> (error + TapeBlock \<times> real) \<times> TapeDevice" where
  "read_current_block tape =
     (if current_position tape \<ge> length (blocks tape) then (Inl OutOfRange, tape)
      else
        let block = blocks tape ! current_position tape;
            time = real (length (data block)) / read_speed tape
        in (Inr (block, time), tape))"

definition seek_to_block :: "nat \<Rightarrow> TapeDevice \<Rightarrow> (error + real) \<times> TapeDevice" where
  "seek_to_block block_index tape =
     (if block_index \<ge> length (blocks tape) then (Inl OutOfRange, tape)
      else
        let distance = size_of_int \<bar>int64_of block_index - int64_of (current_position tape)\<bar>;
            time = real distance * seek_time_per_block tape
        in (Inr time, tape\<lparr>current_position := block_index\<rparr>))"

definition move_forward :: "nat \<Rightarrow> TapeDevice \<Rightarrow> (error + real) \<times> TapeDevice" where
  "move_forward n tape =
     (let new_pos = size_add (current_position tape) n;
          new_pos = (if new_pos \<ge> length (blocks tape) then size_sub (length (blocks tape)) 1
                     else new_pos)
      in seek_to_block new_pos tape)"

definition move_backward :: "nat \<Rightarrow> TapeDevice \<Rightarrow> (error + real) \<times> TapeDevice" where
  "move_backward n tape =
     (let new_pos = (if current_position tape \<ge> n then current_position tape - n else 0)
      in seek_to_block new_pos tape)"

definition get_current_position :: "TapeDevice \<Rightarrow> nat" where
  "get_current_position tape = current_position tape"

definition get_block_count :: "TapeDevice \<Rightarrow> nat" where
  "get_block_count tape = length (blocks tape)"

definition reset :: "TapeDevice \<Rightarrow> TapeDevice" where
  "reset tape = tape\<lparr>blocks := [], current_position := 0\<rparr>"

section \<open>Indexing strategies\<close>

subsection \<open>No index\<close>

definition NoIndex_build_index :: "TapeDevice \<Rightarrow> (error + real) \<times> TapeDevice" where
  "NoIndex_build_index tape = (Inr 0, tape)"

text \<open>
  The scan loop of \<open>NoIndexStrategy::find_block\<close>. The counter is below the block
  count, itself a \<open>size_t\<close>, so \<open>++i\<close> cannot wrap.
\<close>

function NoIndex_scan ::
  "nat \<Rightarrow> nat \<Rightarrow> nat \<Rightarrow> real \<Rightarrow> TapeDevice \<Rightarrow> (error + nat \<times> real) \<times> TapeDevice" where
  "NoIndex_scan data_id original_pos i time tape =
     (if i < get_block_count tape then
        let pos = size_add original_pos i mod get_block_count tape in
        case seek_to_block pos tape of
          (Inl e, tape1) \<Rightarrow> (Inl e, tape1)
        | (Inr seek_time, tape1) \<Rightarrow>
            let time = time + seek_time in
            (case read_current_block tape1 of
               (Inl e, tape2) \<Rightarrow> (Inl e, tape2)
             | (Inr (block, read_time), tape2) \<Rightarrow>
                 let time = time + read_time in
                 if \<not> is_index_block block \<and> block_id block = data_id then (Inr (pos, time), tape2)
                 else NoIndex_scan data_id original_pos (i + 1) time tape2)
      else (Inr (npos, time), tape))"
  by pat_completeness auto
termination
  by (relation "measure (\<lambda>(data_id, original_pos, i, time, tape). get_block_count tape - i)")
     (auto simp: get_block_count_def seek_to_block_def read_current_block_def Let_def
           split: if_splits)

declare NoIndex_scan.simps [simp del]

definition NoIndex_find_block :: "nat \<Rightarrow> TapeDevice \<Rightarrow> (error + nat \<times> real) \<times> TapeDevice" where
  "NoIndex_find_block data_id tape =
     (let time = 0; original_pos = get_current_position tape
      in NoIndex_scan data_id original_pos 0 time tape)"

subsection \<open>Fixed interval\<close>

text \<open>
  \<open>std::unordered_map\<close> is modelled as an association list with distinct keys:
  \<open>clear\<close> is the empty list, \<open>m[k] = v\<close> is \<open>AList.update\<close>, \<open>find\<close> is
  \<open>map_of\<close> and \<open>size\<close> is the length.
\<close>

record FixedIntervalIndexStrategy =
  interval :: nat
  index_map :: "(nat \<times> nat) list"

definition FixedInterval_find_block ::
  "FixedIntervalIndexStrategy \<Rightarrow> nat \<Rightarrow> TapeDevice \<Rightarrow> (error + nat \<times> real) \<times> TapeDevice" where
  "FixedInterval_find_block s data_id tape =
     (let time = 0 in
      case map_of (index_map s) data_id of
        None \<Rightarrow> (Inr (npos, 0), tape)
      | Some target_pos \<Rightarrow>
          (case seek_to_block target_pos tape of
             (Inl e, tape1) \<Rightarrow> (Inl e, tape1)
           | (Inr seek_time, tape1) \<Rightarrow>
               let time = time + seek_time in
               (case read_current_block tape1 of
                  (Inl e, tape2) \<Rightarrow> (Inl e, tape2)
                | (Inr (block, read_time), tape2) \<Rightarrow>
                    let time = time + read_time in
                    if block_id block \<noteq> data_id then (Inr (npos, time), tape2)
                    else (Inr (target_pos, time), tape2))))"

text \<open>
  The body of the \<open>if (!block.is_index_block)\<close> statement of
  \<open>FixedIntervalIndexStrategy::build_index\<close>: record the block under the loop
  counter and, when the map size is a multiple of the interval, append an index block
  to the device and move one block forward. A zero interval makes the source take a
  remainder by zero, which is the error \<open>DivisionByZero\<close> here.
\<close>

definition FixedInterval_index_data_block ::
  "nat \<Rightarrow> nat \<Rightarrow> TapeBlock \<Rightarrow> (nat \<times> nat) list \<Rightarrow> real \<Rightarrow> TapeDevice
     \<Rightarrow> (error + real) \<times> (nat \<times> nat) list \<times> TapeDevice" where
  "FixedInterval_index_data_block ivl i block imap time tape =
     (if \<not> is_index_block block then
        let imap = AList.update (block_id block) i imap in
        if ivl = 0 then (Inl DivisionByZero, imap, tape)
        else if length imap mod ivl = 0 then
          let index_block = \<lparr>block_id = (block_id block + 1000000) mod 2 ^ 64, data = [],
                               is_index_block = True\<rparr>;
              (write_time, tape) = write_block index_block tape;
              time = time + write_time
          in case move_forward 1 tape of
               (Inl e, tape) \<Rightarrow> (Inl e, imap, tape)
             | (Inr move_time, tape) \<Rightarrow> (Inr (time + move_time), imap, tape)
        else (Inr time, imap, tape)
      else (Inr time, imap, tape))"

text \<open>
  The loop of \<open>FixedIntervalIndexStrategy::build_index\<close>. Its bound
  \<open>get_block_count\<close> is read again in every round and grows with every index block
  the loop appends, so the loop is a partial function: \<open>None\<close> stands for a run that
  never leaves it.
\<close>

partial_function (option) FixedInterval_build_loop ::
  "nat \<Rightarrow> nat \<Rightarrow> (nat \<times> nat) list \<Rightarrow> real \<Rightarrow> TapeDevice
     \<Rightarrow> ((error + real) \<times> (nat \<times> nat) list \<times> TapeDevice) option" where
  "FixedInterval_build_loop ivl i imap time tape =
     (if i < get_block_count tape then
        case read_current_block tape of
          (Inl e, tape) \<Rightarrow> Some (Inl e, imap, tape)
        | (Inr (block, read_time), tape) \<Rightarrow>
            (case FixedInterval_index_data_block ivl i block imap (time + read_time) tape of
               (Inl e, imap, tape) \<Rightarrow> Some (Inl e, imap, tape)
             | (Inr time, imap, tape) \<Rightarrow>
                 if i < size_sub (get_block_count tape) 1 then
                   case move_forward 1 tape of
                     (Inl e, tape) \<Rightarrow> Some (Inl e, imap, tape)
                   | (Inr move_time, tape) \<Rightarrow>
                       FixedInterval_build_loop ivl (i + 1) imap (time + move_time) tape
                 else FixedInterval_build_loop ivl (i + 1) imap time tape)
      else Some (Inr time, imap, tape))"

declare FixedInterval_build_loop.simps [code]

definition FixedInterval_build_index ::
  "FixedIntervalIndexStrategy \<Rightarrow> TapeDevice
     \<Rightarrow> ((error + real) \<times> FixedIntervalIndexStrategy \<times> TapeDevice) option" where
  "FixedInterval_build_index s tape =
     (let s = s\<lparr>index_map := []\<rparr>;
          time = 0;
          original_pos = get_current_position tape
      in case seek_to_block 0 tape of
           (Inl e, tape) \<Rightarrow> Some (Inl e, s, tape)
         | (Inr seek_time, tape) \<Rightarrow>
             (case FixedInterval_build_loop (interval s) 0 (index_map s) (time + seek_time) tape of
                None \<Rightarrow> None
              | Some (Inl e, imap, tape) \<Rightarrow> Some (Inl e, s\<lparr>index_map := imap\<rparr>, tape)
              | Some (Inr time, imap, tape) \<Rightarrow>
                  (case seek_to_block original_pos tape of
                     (Inl e, tape) \<Rightarrow> Some (Inl e, s\<lparr>index_map := imap\<rparr>, tape)
                   | (Inr seek_time, tape) \<Rightarrow>
                       Some (Inr (time + seek_time), s\<lparr>index_map := imap\<rparr>, tape))))"

subsection \<open>Hierarchical\<close>

record HierarchicalIndexStrategy =
  level1_interval :: nat
  level2_interval :: nat
  hier_index_map :: "(nat \<times> nat \<times> nat) list"

text \<open>The forward walk of \<open>HierarchicalIndexStrategy::build_index\<close>.\<close>

function Hierarchical_walk ::
  "nat \<Rightarrow> nat \<Rightarrow> (nat \<times> nat) list \<Rightarrow> real \<Rightarrow> TapeDevice
     \<Rightarrow> (error + (nat \<times> nat) list \<times> real) \<times> TapeDevice" where
  "Hierarchical_walk block_count i data_blocks time tape =
     (if i < block_count then
        case read_current_block tape of
          (Inl e, tape) \<Rightarrow> (Inl e, tape)
        | (Inr (block, read_time), tape) \<Rightarrow>
            let time = time + read_time;
                data_blocks = (if \<not> is_index_block block
                               then data_blocks @ [(block_id block, i)] else data_blocks)
            in if i < size_sub block_count 1 then
                 case move_forward 1 tape of
                   (Inl e, tape) \<Rightarrow> (Inl e, tape)
                 | (Inr move_time, tape) \<Rightarrow>
                     Hierarchical_walk block_count (i + 1) data_blocks (time + move_time) tape
               else Hierarchical_walk block_count (i + 1) data_blocks time tape
      else (Inr (data_blocks, time), tape))"
  by pat_completeness auto
termination
  by (relation "measure (\<lambda>(block_count, i, data_blocks, time, tape). block_count - i)") auto

declare Hierarchical_walk.simps [simp del]

text \<open>
  The loop that fills the index map from the collected data blocks. Both divisions are
  by the strategy's intervals; a zero interval is the error \<open>DivisionByZero\<close>.
\<close>

function Hierarchical_fill ::
  "nat \<Rightarrow> nat \<Rightarrow> (nat \<times> nat) list \<Rightarrow> nat \<Rightarrow> (nat \<times> nat \<times> nat) list
     \<Rightarrow> error + (nat \<times> nat \<times> nat) list" where
  "Hierarchical_fill l1 l2 data_blocks i imap =
     (if i < length data_blocks then
        let (id, pos) = data_blocks ! i in
        if l2 = 0 then Inl DivisionByZero
        else
          let level2_idx = i div l2 in
          if l1 = 0 then Inl DivisionByZero
          else
            let level1_idx = level2_idx div l1 in
            Hierarchical_fill l1 l2 data_blocks (i + 1) (AList.update id (level1_idx, level2_idx) imap)
      else Inr imap)"
  by pat_completeness auto
termination
  by (relation "measure (\<lambda>(l1, l2, data_blocks, i, imap). length data_blocks - i)") auto

declare Hierarchical_fill.simps [simp del]

definition Hierarchical_build_index ::
  "HierarchicalIndexStrategy \<Rightarrow> TapeDevice
     \<Rightarrow> (error + real) \<times> HierarchicalIndexStrategy \<times> TapeDevice" where
  "Hierarchical_build_index s tape =
     (let s = s\<lparr>hier_index_map := []\<rparr>;
          time = 0;
          original_pos = get_current_position tape;
          block_count = get_block_count tape
      in case seek_to_block 0 tape of
           (Inl e, tape) \<Rightarrow> (Inl e, s, tape)
         | (Inr seek_time, tape) \<Rightarrow>
             (case Hierarchical_walk block_count 0 [] (time + seek_time) tape of
                (Inl e, tape) \<Rightarrow> (Inl e, s, tape)
              | (Inr (data_blocks, time), tape) \<Rightarrow>
                  let level2_block = \<lparr>block_id = 1000000, data = [], is_index_block = True\<rparr>;
                      (write_time, tape) = write_block level2_block tape;
                      time = time + write_time;
                      level1_block = \<lparr>block_id = 2000000, data = [], is_index_block = True\<rparr>;
                      (write_time, tape) = write_block level1_block tape;
                      time = time + write_time
                  in case Hierarchical_fill (level1_interval s) (level2_interval s) data_blocks 0 [] of
                       Inl e \<Rightarrow> (Inl e, s, tape)
                     | Inr imap \<Rightarrow>
                         (case seek_to_block original_pos tape of
                            (Inl e, tape) \<Rightarrow> (Inl e, s\<lparr>hier_index_map := imap\<rparr>, tape)
                          | (Inr seek_time, tape) \<Rightarrow>
                              (Inr (time + seek_time), s\<lparr>hier_index_map := imap\<rparr>, tape))))"

subsection \<open>The strategy interface and the factory\<close>

datatype IndexStrategy =
    NoIndex
  | FixedInterval FixedIntervalIndexStrategy
  | Hierarchical HierarchicalIndexStrategy

fun build_index ::
  "IndexStrategy \<Rightarrow> TapeDevice \<Rightarrow> ((error + real) \<times> IndexStrategy \<times> TapeDevice) option" where
  "build_index NoIndex tape =
     (case NoIndex_build_index tape of (r, tape) \<Rightarrow> Some (r, NoIndex, tape))"
| "build_index (FixedInterval s) tape =
     (case FixedInterval_build_index s tape of
        None \<Rightarrow> None
      | Some (r, s, tape) \<Rightarrow> Some (r, FixedInterval s, tape))"
| "build_index (Hierarchical s) tape =
     (case Hierarchical_build_index s tape of (r, s, tape) \<Rightarrow> Some (r, Hierarchical s, tape))"

definition create_strategy :: "string \<Rightarrow> nat \<Rightarrow> nat \<Rightarrow> error + IndexStrategy" where
  "create_strategy type param1 param2 =
     (if type = ''none'' then Inr NoIndex
      else if type = ''fixed'' then
        Inr (FixedInterval \<lparr>interval = (if param1 > 0 then param1 else 10), index_map = []\<rparr>)
      else if type = ''hierarchical'' then
        Inr (Hierarchical \<lparr>level1_interval = (if param1 > 0 then param1 else 100),
                           level2_interval = (if param2 > 0 then param2 else 10),
                           hier_index_map = []\<rparr>)
      else Inl InvalidArgument)"

section \<open>Notions used in the statements and proofs\<close>

text \<open>
  The states a program can reach: the block count is a vector size, and the head is 0
  (fresh or reset device) or the target of a successful seek.
\<close>

definition tape_ok :: "TapeDevice \<Rightarrow> bool" where
  "tape_ok tape \<longleftrightarrow>
     length (blocks tape) \<le> max_size \<and>
     (current_position tape = 0 \<or> current_position tape < length (blocks tape))"

text \<open>A device holding the given blocks, written in order to a fresh device.\<close>

definition tape_of :: "TapeBlock list \<Rightarrow> TapeDevice" where
  "tape_of bs = fold (\<lambda>b tape. snd (write_block b tape)) bs
     (TapeDevice_new 4096 (1024 * 1024) (512 * 1024) (1 / 100))"

definition data_block :: "nat \<Rightarrow> TapeBlock" where
  "data_block k = \<lparr>block_id = k, data = [], is_index_block = False\<rparr>"

text \<open>The intervals of a strategy are positive, as the factory makes them.\<close>

fun strategy_ok :: "IndexStrategy \<Rightarrow> bool" where
  "strategy_ok NoIndex = True"
| "strategy_ok (FixedInterval s) = (0 < interval s)"
| "strategy_ok (Hierarchical s) = (0 < level1_interval s \<and> 0 < level2_interval s)"

text \<open>
  For the circular scan from head \<open>h\<close> over \<open>n\<close> blocks: the number of blocks the
  head has travelled when it reaches the \<open>j\<close>-th position of the scan (the step from
  the last block back to the first travels \<open>n - 1\<close> blocks).
\<close>

definition scan_distance :: "nat \<Rightarrow> nat \<Rightarrow> nat \<Rightarrow> nat" where
  "scan_distance n h j = j + (if h + j < n then 0 else n - 2)"

definition read_cost :: "TapeDevice \<Rightarrow> nat \<Rightarrow> real" where
  "read_cost tape p = real (length (data (blocks tape ! p))) / read_speed tape"

definition block_matches :: "TapeDevice \<Rightarrow> nat \<Rightarrow> nat \<Rightarrow> bool" where
  "block_matches tape data_id p \<longleftrightarrow>
     \<not> is_index_block (blocks tape ! p) \<and> block_id (blocks tape ! p) = data_id"

text \<open>The number of data blocks at or after the head.\<close>

definition data_ahead :: "TapeDevice \<Rightarrow> nat" where
  "data_ahead tape =
     length (filter (\<lambda>b. \<not> is_index_block b) (drop (current_position tape) (blocks tape)))"

section \<open>Device: basic facts\<close>

lemma int64_of_small: "x < 2 ^ 63 \<Longrightarrow> int64_of x = int x"
  by (simp add: int64_of_def)

lemma seek_distance_small:
  assumes "a < 2 ^ 63" "b < 2 ^ 63"
  shows "size_of_int \<bar>int64_of a - int64_of b\<bar> = nat \<bar>int a - int b\<bar>"
proof -
  have "\<bar>int a - int b\<bar> < 2 ^ 64"
    using assms by (simp add: abs_if)
  then show ?thesis
    using assms by (simp add: int64_of_small size_of_int_def)
qed

lemma size_sub_one: "0 < n \<Longrightarrow> n \<le> max_size \<Longrightarrow> size_sub n 1 = n - 1"
  by (cases n) (simp_all add: size_sub_def max_size_def)

lemma size_of_int_0: "size_of_int 0 = 0"
  by (simp add: size_of_int_def)

lemma blocks_tape_of: "blocks (tape_of bs) = bs"
proof -
  have "blocks (fold (\<lambda>b tape. snd (write_block b tape)) bs t) = blocks t @ bs" for t
    by (induction bs arbitrary: t) (simp_all add: write_block_def)
  then show ?thesis by (simp add: tape_of_def TapeDevice_new_def)
qed

lemma position_tape_of: "current_position (tape_of bs) = 0"
proof -
  have "current_position (fold (\<lambda>b tape. snd (write_block b tape)) bs t) = current_position t" for t
    by (induction bs arbitrary: t) (simp_all add: write_block_def)
  then show ?thesis by (simp add: tape_of_def TapeDevice_new_def)
qed

lemma seek_time_tape_of: "seek_time_per_block (tape_of bs) = 1 / 100"
proof -
  have "seek_time_per_block (fold (\<lambda>b tape. snd (write_block b tape)) bs t) = seek_time_per_block t" for t
    by (induction bs arbitrary: t) (simp_all add: write_block_def)
  then show ?thesis by (simp add: tape_of_def TapeDevice_new_def)
qed

lemma tape_ok_tape_of: "length bs \<le> max_size \<Longrightarrow> tape_ok (tape_of bs)"
  by (simp add: tape_ok_def blocks_tape_of position_tape_of)

text \<open>The reachable-state predicate is kept by every device operation.\<close>

lemma tape_ok_new: "tape_ok (TapeDevice_new bs rs ws st)"
  by (simp add: tape_ok_def TapeDevice_new_def)

lemma tape_ok_reset: "tape_ok (reset tape)"
  by (simp add: tape_ok_def reset_def)

lemma tape_ok_write:
  "tape_ok tape \<Longrightarrow> length (blocks tape) < max_size \<Longrightarrow> tape_ok (snd (write_block b tape))"
  by (auto simp: tape_ok_def write_block_def)

lemma tape_ok_read: "tape_ok tape \<Longrightarrow> tape_ok (snd (read_current_block tape))"
  by (simp add: read_current_block_def Let_def)

lemma tape_ok_seek: "tape_ok tape \<Longrightarrow> tape_ok (snd (seek_to_block k tape))"
  by (simp add: tape_ok_def seek_to_block_def)

lemma tape_ok_move_forward: "tape_ok tape \<Longrightarrow> tape_ok (snd (move_forward n tape))"
  by (simp add: move_forward_def tape_ok_seek Let_def)

lemma tape_ok_move_backward: "tape_ok tape \<Longrightarrow> tape_ok (snd (move_backward n tape))"
  by (simp add: move_backward_def tape_ok_seek)

section \<open>Device: seek\<close>

text \<open>
  C4. On a reachable device \<open>seek_to_block target\<close> with \<open>target\<close> below the block
  count succeeds, the head position queried afterwards is \<open>target\<close>, and the cost is
  the distance between the target and the previous head times the per-block seek time,
  which is zero when the head does not move.
\<close>

theorem seek_to_block_position_and_cost:
  assumes "tape_ok tape" and "target < length (blocks tape)"
  shows "fst (seek_to_block target tape) =
           Inr (real (nat \<bar>int target - int (current_position tape)\<bar>) * seek_time_per_block tape)
       \<and> get_current_position (snd (seek_to_block target tape)) = target
       \<and> blocks (snd (seek_to_block target tape)) = blocks tape
       \<and> (target = current_position tape \<longrightarrow> fst (seek_to_block target tape) = Inr 0)"
proof -
  from assms have "target < 2 ^ 63" "current_position tape < 2 ^ 63"
    by (auto simp: tape_ok_def max_size_def)
  then have "size_of_int \<bar>int64_of target - int64_of (current_position tape)\<bar>
      = nat \<bar>int target - int (current_position tape)\<bar>"
    by (rule seek_distance_small)
  with assms(2) show ?thesis
    by (auto simp: seek_to_block_def get_current_position_def size_of_int_0)
qed

theorem seek_to_block_position_and_cost_witness:
  "tape_ok (tape_of (map data_block [1, 2, 3, 4, 5]))
   \<and> fst (seek_to_block 3 (tape_of (map data_block [1, 2, 3, 4, 5]))) = Inr (3 / 100)
   \<and> get_current_position (snd (seek_to_block 3 (tape_of (map data_block [1, 2, 3, 4, 5])))) = 3"
proof -
  have ok: "tape_ok (tape_of (map data_block [1, 2, 3, 4, 5]))"
    by (rule tape_ok_tape_of) (simp add: max_size_def)
  have lt: "3 < length (blocks (tape_of (map data_block [1, 2, 3, 4, 5])))"
    by (simp add: blocks_tape_of)
  show ?thesis
    using ok seek_to_block_position_and_cost [OF ok lt]
    by (simp add: position_tape_of seek_time_tape_of)
qed

section \<open>Device: error conditions\<close>

text \<open>
  C6. \<open>read_current_block\<close> fails, with the out-of-range error, exactly when the head
  position is at or beyond the block count, hence always on an empty device;
  \<open>seek_to_block\<close> fails, with the out-of-range error, exactly when the target is at
  or beyond the block count.
\<close>

theorem out_of_range_exactly:
  "(isl (fst (read_current_block tape))) = (current_position tape \<ge> length (blocks tape))
   \<and> (fst (read_current_block tape) = Inl OutOfRange) = (current_position tape \<ge> length (blocks tape))
   \<and> (blocks tape = [] \<longrightarrow> fst (read_current_block tape) = Inl OutOfRange)
   \<and> (isl (fst (seek_to_block target tape))) = (target \<ge> length (blocks tape))
   \<and> (fst (seek_to_block target tape) = Inl OutOfRange) = (target \<ge> length (blocks tape))"
  by (simp add: read_current_block_def seek_to_block_def Let_def)

theorem out_of_range_exactly_witness:
  "blocks (TapeDevice_new 4096 1 1 1) = []
   \<and> fst (read_current_block (TapeDevice_new 4096 1 1 1)) = Inl OutOfRange
   \<and> fst (seek_to_block 0 (TapeDevice_new 4096 1 1 1)) = Inl OutOfRange"
  using out_of_range_exactly [of "TapeDevice_new 4096 1 1 1" 0]
  by (simp add: TapeDevice_new_def)

text \<open>
  C10. A failing \<open>seek_to_block\<close> and a failing \<open>read_current_block\<close> leave the
  device, head position and block sequence included, as it was before the call.
\<close>

theorem failed_operation_keeps_device:
  "(isl (fst (seek_to_block target tape)) \<longrightarrow> snd (seek_to_block target tape) = tape)
   \<and> (isl (fst (read_current_block tape)) \<longrightarrow> snd (read_current_block tape) = tape)"
  by (simp add: read_current_block_def seek_to_block_def Let_def)

theorem failed_operation_keeps_device_witness:
  "isl (fst (seek_to_block 7 (tape_of (map data_block [1, 2, 3]))))
   \<and> snd (seek_to_block 7 (tape_of (map data_block [1, 2, 3]))) = tape_of (map data_block [1, 2, 3])
   \<and> isl (fst (read_current_block (TapeDevice_new 4096 1 1 1)))
   \<and> snd (read_current_block (TapeDevice_new 4096 1 1 1)) = TapeDevice_new 4096 1 1 1"
  using failed_operation_keeps_device [of 7 "tape_of (map data_block [1, 2, 3])"]
    failed_operation_keeps_device [of 0 "TapeDevice_new 4096 1 1 1"]
  by (simp add: seek_to_block_def read_current_block_def blocks_tape_of TapeDevice_new_def)

section \<open>Device: relative moves\<close>

lemma move_forward_in_range:
  assumes "blocks tape \<noteq> []" and "length (blocks tape) \<le> max_size"
  shows "\<not> isl (fst (move_forward n tape))
       \<and> current_position (snd (move_forward n tape)) < length (blocks tape)
       \<and> blocks (snd (move_forward n tape)) = blocks tape"
proof -
  have pos: "0 < length (blocks tape)" using assms(1) by simp
  then have "size_sub (length (blocks tape)) 1 = length (blocks tape) - 1"
    using assms(2) by (rule size_sub_one)
  with pos show ?thesis
    by (cases "blocks tape") (auto simp: move_forward_def seek_to_block_def Let_def)
qed

lemma move_forward_clamps_without_overflow:
  assumes "blocks tape \<noteq> []" and "length (blocks tape) \<le> max_size"
    and "current_position tape + n < 2 ^ 64"
  shows "current_position (snd (move_forward n tape))
       = min (current_position tape + n) (length (blocks tape) - 1)"
proof -
  have pos: "0 < length (blocks tape)" using assms(1) by simp
  then have "size_sub (length (blocks tape)) 1 = length (blocks tape) - 1"
    using assms(2) by (rule size_sub_one)
  moreover have "size_add (current_position tape) n = current_position tape + n"
    using assms(3) by (simp add: size_add_def)
  ultimately show ?thesis
    using pos by (cases "blocks tape") (auto simp: move_forward_def seek_to_block_def Let_def min_def)
qed

lemma move_backward_clamps:
  assumes "current_position tape < length (blocks tape)"
  shows "\<not> isl (fst (move_backward n tape))
       \<and> current_position (snd (move_backward n tape)) = current_position tape - n
       \<and> blocks (snd (move_backward n tape)) = blocks tape"
  using assms by (auto simp: move_backward_def seek_to_block_def Let_def)

text \<open>
  C5. The addition \<open>current_position + n\<close> of \<open>move_forward\<close> wraps in \<open>size_t\<close>
  before it is compared with the block count. On ten blocks with the head at 5, moving
  forward by \<open>2 ^ 64 - 1\<close> asks for a position far beyond the last block and leaves the
  head at 4: neither clamped to 9 nor moved forward.
\<close>

theorem move_forward_overflow_not_clamped:
  "current_position (snd (seek_to_block 5 (tape_of (map data_block [1, 2, 3, 4, 5, 6, 7, 8, 9, 10])))) = 5
   \<and> length (blocks (snd (seek_to_block 5 (tape_of (map data_block [1, 2, 3, 4, 5, 6, 7, 8, 9, 10]))))) - 1 = 9
   \<and> get_current_position (snd (move_forward (2 ^ 64 - 1)
        (snd (seek_to_block 5 (tape_of (map data_block [1, 2, 3, 4, 5, 6, 7, 8, 9, 10])))))) = 4"
  by (simp add: move_forward_def seek_to_block_def blocks_tape_of get_current_position_def
      size_add_def Let_def)

section \<open>Fixed-interval strategy: lookup\<close>

text \<open>
  C7. When the identifier is not a key of the index map, \<open>find_block\<close> returns
  \<open>npos\<close> with cost 0 and the device is untouched. When the identifier is a key
  and the block at the recorded position carries another identifier, it returns
  \<open>npos\<close> with the cost of the seek to that position plus the cost of reading the
  block there.
\<close>

theorem FixedInterval_find_block_not_found:
  "(map_of (index_map s) data_id = None \<longrightarrow>
      FixedInterval_find_block s data_id tape = (Inr (npos, 0), tape))
   \<and> (map_of (index_map s) data_id = Some pos \<and> pos < length (blocks tape)
        \<and> block_id (blocks tape ! pos) \<noteq> data_id \<longrightarrow>
      FixedInterval_find_block s data_id tape =
        (Inr (npos,
              real (size_of_int \<bar>int64_of pos - int64_of (current_position tape)\<bar>)
                * seek_time_per_block tape
              + real (length (data (blocks tape ! pos))) / read_speed tape),
         tape\<lparr>current_position := pos\<rparr>))"
  by (simp add: FixedInterval_find_block_def seek_to_block_def read_current_block_def Let_def)

theorem FixedInterval_find_block_not_found_witness:
  "map_of (index_map \<lparr>interval = 10, index_map = [(7, 1)]\<rparr>) 8 = None
   \<and> FixedInterval_find_block \<lparr>interval = 10, index_map = [(7, 1)]\<rparr> 8 (tape_of (map data_block [5, 6]))
       = (Inr (npos, 0), tape_of (map data_block [5, 6]))
   \<and> map_of (index_map \<lparr>interval = 10, index_map = [(7, 1)]\<rparr>) 7 = Some 1
   \<and> 1 < length (blocks (tape_of (map data_block [5, 6])))
   \<and> block_id (blocks (tape_of (map data_block [5, 6])) ! 1) \<noteq> 7
   \<and> FixedInterval_find_block \<lparr>interval = 10, index_map = [(7, 1)]\<rparr> 7 (tape_of (map data_block [5, 6]))
       = (Inr (npos, 1 / 100), (tape_of (map data_block [5, 6]))\<lparr>current_position := 1\<rparr>)"
  using FixedInterval_find_block_not_found
      [of "\<lparr>interval = 10, index_map = [(7, 1)]\<rparr>" 8 "tape_of (map data_block [5, 6])" 1]
    FixedInterval_find_block_not_found
      [of "\<lparr>interval = 10, index_map = [(7, 1)]\<rparr>" 7 "tape_of (map data_block [5, 6])" 1]
  by (simp add: blocks_tape_of position_tape_of seek_time_tape_of data_block_def
      int64_of_def size_of_int_def)

section \<open>No-index strategy: the circular scan\<close>

lemma scan_step_distance:
  assumes "h < n" "n \<le> max_size" "i < n"
    and "c = (if i = 0 then h else (h + (i - 1)) mod n)"
  shows "real (size_of_int \<bar>int64_of ((h + i) mod n) - int64_of c\<bar>)
       = real (scan_distance n h i) - real (if i = 0 then 0 else scan_distance n h (i - 1))"
proof -
  have b: "(h + i) mod n < n" "c < n"
    using assms by auto
  have n: "n \<le> 2 ^ 63"
    using assms(2) by (simp add: max_size_def)
  have a: "(h + i) mod n < 2 ^ 63" "c < 2 ^ 63"
    using b(1) n apply (rule less_le_trans)
    using b(2) n apply (rule less_le_trans)
    done
  have d: "size_of_int \<bar>int64_of ((h + i) mod n) - int64_of c\<bar> = nat \<bar>int ((h + i) mod n) - int c\<bar>"
    using a by (rule seek_distance_small)
  have "real (nat \<bar>int ((h + i) mod n) - int c\<bar>)
       = real (scan_distance n h i) - real (if i = 0 then 0 else scan_distance n h (i - 1))"
  proof (cases "i = 0")
    case True
    with assms show ?thesis by (simp add: scan_distance_def)
  next
    case False
    then obtain i' where i: "i = Suc i'" by (cases i) auto
    consider "h + i < n" | "h + i = n" | "h + i > n" by linarith
    then show ?thesis
    proof cases
      case 1
      with assms i show ?thesis by (simp add: scan_distance_def)
    next
      case 2
      with assms i have "h + i' = n - 1" "n \<ge> 2" by auto
      with assms i 2 show ?thesis by (simp add: scan_distance_def)
    next
      case 3
      with assms i have m: "(h + i) mod n = h + i - n" "(h + i') mod n = h + i' - n"
        by (auto simp: mod_if)
      with assms i 3 show ?thesis by (simp add: scan_distance_def m)
    qed
  qed
  then show ?thesis unfolding d .
qed

lemma block_matches_position [simp]:
  "block_matches (tape\<lparr>current_position := c\<rparr>) data_id p = block_matches tape data_id p"
  by (simp add: block_matches_def)

lemma read_cost_position [simp]:
  "read_cost (tape\<lparr>current_position := c\<rparr>) p = read_cost tape p"
  by (simp add: read_cost_def)

lemma NoIndex_scan_unfold:
  assumes "i < length (blocks tape)" and "h + i < 2 ^ 64"
  shows "NoIndex_scan data_id h i t tape =
    (if block_matches tape data_id ((h + i) mod length (blocks tape))
     then (Inr ((h + i) mod length (blocks tape),
             t + real (size_of_int \<bar>int64_of ((h + i) mod length (blocks tape)) - int64_of (current_position tape)\<bar>)
                    * seek_time_per_block tape
               + read_cost tape ((h + i) mod length (blocks tape))),
           tape\<lparr>current_position := (h + i) mod length (blocks tape)\<rparr>)
     else NoIndex_scan data_id h (i + 1)
            (t + real (size_of_int \<bar>int64_of ((h + i) mod length (blocks tape)) - int64_of (current_position tape)\<bar>)
                    * seek_time_per_block tape
               + read_cost tape ((h + i) mod length (blocks tape)))
            (tape\<lparr>current_position := (h + i) mod length (blocks tape)\<rparr>))"
proof -
  have "0 < length (blocks tape)" using assms(1) by auto
  then have "(h + i) mod length (blocks tape) < length (blocks tape)"
    by simp
  then show ?thesis
    using assms
    by (subst NoIndex_scan.simps)
       (simp add: get_block_count_def size_add_def seek_to_block_def read_current_block_def
          read_cost_def block_matches_def Let_def)
qed

lemma NoIndex_scan_found:
  assumes "h < length (blocks tape)" and "length (blocks tape) \<le> max_size"
    and "i \<le> k" and "k < length (blocks tape)"
    and "current_position tape = (if i = 0 then h else (h + (i - 1)) mod length (blocks tape))"
    and "block_matches tape data_id ((h + k) mod length (blocks tape))"
    and "\<forall>j. i \<le> j \<and> j < k \<longrightarrow> \<not> block_matches tape data_id ((h + j) mod length (blocks tape))"
  shows "NoIndex_scan data_id h i t tape =
     (Inr ((h + k) mod length (blocks tape),
           t + seek_time_per_block tape
                 * (real (scan_distance (length (blocks tape)) h k)
                    - real (if i = 0 then 0 else scan_distance (length (blocks tape)) h (i - 1)))
             + (\<Sum>j = i..k. read_cost tape ((h + j) mod length (blocks tape)))),
      tape\<lparr>current_position := (h + k) mod length (blocks tape)\<rparr>)"
  using assms
proof (induction "k - i" arbitrary: i t tape)
  case 0
  let ?n = "length (blocks tape)"
  let ?pos = "(h + i) mod ?n"
  from 0 have ik: "k = i" by simp
  have small: "h + i < 2 ^ 64" "i < ?n"
    using "0.prems" by (simp_all add: max_size_def)
  have dist: "real (size_of_int \<bar>int64_of ?pos - int64_of (current_position tape)\<bar>)
       = real (scan_distance ?n h i) - real (if i = 0 then 0 else scan_distance ?n h (i - 1))"
    using "0.prems" by (intro scan_step_distance) auto
  have m: "block_matches tape data_id ?pos"
    using "0.prems" ik by simp
  show ?case
    unfolding ik NoIndex_scan_unfold [OF small(2) small(1)] dist using m
    by (simp add: algebra_simps)
next
  case (Suc d)
  let ?n = "length (blocks tape)"
  let ?pos = "(h + i) mod ?n"
  let ?tape = "tape\<lparr>current_position := ?pos\<rparr>"
  from Suc.hyps Suc.prems have ik: "i < k" "i < ?n" by auto
  have small: "h + i < 2 ^ 64"
    using Suc.prems ik by (simp add: max_size_def)
  have dist: "real (size_of_int \<bar>int64_of ?pos - int64_of (current_position tape)\<bar>)
       = real (scan_distance ?n h i) - real (if i = 0 then 0 else scan_distance ?n h (i - 1))"
    using Suc.prems ik by (intro scan_step_distance) auto
  have nm: "\<not> block_matches tape data_id ?pos"
    using Suc.prems ik by auto
  let ?t = "t + (real (scan_distance ?n h i) - real (if i = 0 then 0 else scan_distance ?n h (i - 1)))
                    * seek_time_per_block tape + read_cost tape ?pos"
  have step: "NoIndex_scan data_id h i t tape = NoIndex_scan data_id h (i + 1) ?t ?tape"
    unfolding NoIndex_scan_unfold [OF ik(2) small] dist using nm by simp
  have IH: "NoIndex_scan data_id h (i + 1) ?t ?tape =
     (Inr ((h + k) mod length (blocks ?tape),
           ?t + seek_time_per_block ?tape
                 * (real (scan_distance (length (blocks ?tape)) h k)
                    - real (if i + 1 = 0 then 0 else scan_distance (length (blocks ?tape)) h (i + 1 - 1)))
             + (\<Sum>j = i + 1..k. read_cost ?tape ((h + j) mod length (blocks ?tape)))),
      ?tape\<lparr>current_position := (h + k) mod length (blocks ?tape)\<rparr>)"
  proof (rule Suc.hyps(1))
    show "d = k - (i + 1)" using Suc.hyps(2) by simp
    show "\<forall>j. i + 1 \<le> j \<and> j < k \<longrightarrow> \<not> block_matches ?tape data_id ((h + j) mod length (blocks ?tape))"
      using Suc.prems by simp
  qed (use Suc.prems ik in simp_all)
  have sum: "(\<Sum>j = i..k. read_cost tape ((h + j) mod ?n))
      = read_cost tape ?pos + (\<Sum>j = i + 1..k. read_cost tape ((h + j) mod ?n))"
    using ik by (simp add: sum.atLeast_Suc_atMost)
  show ?case
    unfolding step IH sum by (simp add: algebra_simps)
qed


lemma NoIndex_scan_absent:
  assumes "h < length (blocks tape)" and "length (blocks tape) \<le> max_size"
    and "i \<le> length (blocks tape)"
    and "current_position tape = (if i = 0 then h else (h + (i - 1)) mod length (blocks tape))"
    and "\<forall>j. i \<le> j \<and> j < length (blocks tape)
           \<longrightarrow> \<not> block_matches tape data_id ((h + j) mod length (blocks tape))"
  shows "NoIndex_scan data_id h i t tape =
     (Inr (npos,
           t + seek_time_per_block tape
                 * (real (scan_distance (length (blocks tape)) h (length (blocks tape) - 1))
                    - real (if i = 0 then 0 else scan_distance (length (blocks tape)) h (i - 1)))
             + (\<Sum>j = i..<length (blocks tape). read_cost tape ((h + j) mod length (blocks tape)))),
      tape\<lparr>current_position := (h + (length (blocks tape) - 1)) mod length (blocks tape)\<rparr>)"
  using assms
proof (induction "length (blocks tape) - i" arbitrary: i t tape)
  case 0
  let ?n = "length (blocks tape)"
  from 0 have i: "i = ?n" "i \<noteq> 0" by auto
  have "current_position tape = (h + (i - 1)) mod ?n"
    using "0.prems"(4) i(2) by (simp only: if_False)
  then have "tape\<lparr>current_position := (h + (i - 1)) mod ?n\<rparr> = tape"
    by simp
  then have eq: "tape\<lparr>current_position := (h + (?n - 1)) mod ?n\<rparr> = tape"
    using i(1) by (simp only:)
  show ?case
    unfolding eq using i by (subst NoIndex_scan.simps) (simp add: get_block_count_def)
next
  case (Suc d)
  let ?n = "length (blocks tape)"
  let ?pos = "(h + i) mod ?n"
  let ?tape = "tape\<lparr>current_position := ?pos\<rparr>"
  from Suc.hyps Suc.prems have ik: "i < ?n" by auto
  have small: "h + i < 2 ^ 64"
    using Suc.prems ik by (simp add: max_size_def)
  have dist: "real (size_of_int \<bar>int64_of ?pos - int64_of (current_position tape)\<bar>)
       = real (scan_distance ?n h i) - real (if i = 0 then 0 else scan_distance ?n h (i - 1))"
    using Suc.prems ik by (intro scan_step_distance) auto
  have nm: "\<not> block_matches tape data_id ?pos"
    using Suc.prems ik by auto
  let ?t = "t + (real (scan_distance ?n h i) - real (if i = 0 then 0 else scan_distance ?n h (i - 1)))
                    * seek_time_per_block tape + read_cost tape ?pos"
  have step: "NoIndex_scan data_id h i t tape = NoIndex_scan data_id h (i + 1) ?t ?tape"
    unfolding NoIndex_scan_unfold [OF ik small] dist using nm by simp
  have IH: "NoIndex_scan data_id h (i + 1) ?t ?tape =
     (Inr (npos,
           ?t + seek_time_per_block ?tape
                 * (real (scan_distance (length (blocks ?tape)) h (length (blocks ?tape) - 1))
                    - real (if i + 1 = 0 then 0 else scan_distance (length (blocks ?tape)) h (i + 1 - 1)))
             + (\<Sum>j = i + 1..<length (blocks ?tape). read_cost ?tape ((h + j) mod length (blocks ?tape)))),
      ?tape\<lparr>current_position := (h + (length (blocks ?tape) - 1)) mod length (blocks ?tape)\<rparr>)"
  proof (rule Suc.hyps(1))
    show "d = length (blocks ?tape) - (i + 1)" using Suc.hyps(2) by simp
    show "\<forall>j. i + 1 \<le> j \<and> j < length (blocks ?tape)
          \<longrightarrow> \<not> block_matches ?tape data_id ((h + j) mod length (blocks ?tape))"
      using Suc.prems by simp
  qed (use Suc.prems ik in simp_all)
  have sum: "(\<Sum>j = i..<?n. read_cost tape ((h + j) mod ?n))
      = read_cost tape ?pos + (\<Sum>j = i + 1..<?n. read_cost tape ((h + j) mod ?n))"
    using ik by (simp add: sum.atLeast_Suc_lessThan)
  show ?case
    unfolding step IH sum by (simp add: algebra_simps)
qed

lemma circular_sum:
  fixes f :: "nat \<Rightarrow> real"
  assumes "h < n" and "k < n"
  shows "(\<Sum>j = 0..k. f ((h + j) mod n))
       = (if h + k < n then (\<Sum>q = h..h + k. f q)
          else (\<Sum>q = h..<n. f q) + (\<Sum>q = 0..h + k - n. f q))"
  using assms(2)
proof (induction k)
  case 0
  with assms(1) show ?case by simp
next
  case (Suc k)
  then have IH: "(\<Sum>j = 0..k. f ((h + j) mod n))
       = (if h + k < n then (\<Sum>q = h..h + k. f q)
          else (\<Sum>q = h..<n. f q) + (\<Sum>q = 0..h + k - n. f q))"
    by simp
  consider "h + Suc k < n" | "h + Suc k = n" | "h + Suc k > n" by linarith
  then show ?case
  proof cases
    case 1
    then show ?thesis using IH by simp
  next
    case 2
    then have "{h..h + k} = {h..<n}" by auto
    with 2 show ?thesis using IH by simp
  next
    case 3
    have "(h + Suc k) mod n = (h + Suc k - n) mod n"
      using 3 by (simp add: le_mod_geq)
    also have "\<dots> = h + Suc k - n"
      using assms(1) Suc.prems by (intro mod_less) linarith
    also have "\<dots> = Suc (h + k - n)"
      using 3 by linarith
    finally have m: "(h + Suc k) mod n = Suc (h + k - n)" .
    have "{0..Suc (h + k) - n} = insert (Suc (h + k - n)) {0..h + k - n}"
      using 3 by auto
    with 3 m show ?thesis using IH by simp
  qed
qed


lemma sum_list_read_cost:
  "(\<Sum>b\<leftarrow>blocks tape. real (length (data b)) / read_speed tape)
     = (\<Sum>q = 0..<length (blocks tape). read_cost tape q)"
  by (simp add: sum_list_sum_nth read_cost_def)

lemma full_circle_sum:
  fixes f :: "nat \<Rightarrow> real"
  assumes "h < n"
  shows "(\<Sum>j = 0..<n. f ((h + j) mod n)) = (\<Sum>q = 0..<n. f q)"
proof -
  from assms obtain m where n: "n = Suc m" by (cases n) auto
  have "(\<Sum>j = 0..<n. f ((h + j) mod n)) = (\<Sum>j = 0..m. f ((h + j) mod n))"
    by (simp add: n atLeastLessThanSuc_atLeastAtMost)
  also have "\<dots> = (if h + m < n then (\<Sum>q = h..h + m. f q)
          else (\<Sum>q = h..<n. f q) + (\<Sum>q = 0..h + m - n. f q))"
    using assms by (intro circular_sum) (simp_all add: n)
  also have "\<dots> = (\<Sum>q = 0..<n. f q)"
  proof (cases "h = 0")
    case True
    then show ?thesis by (simp add: n atLeastLessThanSuc_atLeastAtMost)
  next
    case False
    then have "{0..h + m - n} = {0..<h}" using n by auto
    moreover have "(\<Sum>q = 0..<h. f q) + (\<Sum>q = h..<n. f q) = (\<Sum>q = 0..<n. f q)"
      using assms by (intro sum.atLeastLessThan_concat) simp_all
    ultimately show ?thesis using False n by simp
  qed
  finally show ?thesis .
qed

text \<open>
  C3. On a non-empty reachable device, \<open>NoIndexStrategy::find_block\<close> on an
  identifier carried by exactly one data block, at position \<open>p\<close>, returns \<open>p\<close> and
  leaves the head there; the cost is the seek time for the blocks travelled from the head
  \<open>h\<close> to \<open>p\<close> in scan order (\<open>p - h\<close> when \<open>h \<le> p\<close>; otherwise to the last
  block, back to block 0 and on to \<open>p\<close>) plus the read time of every block visited.
  On an identifier carried by no data block it returns \<open>npos\<close>, and the cost is that
  of one full pass: the seek time for the whole circle plus the read time of every block
  of the device.
\<close>

theorem NoIndex_find_block_scan:
  assumes "tape_ok tape" and "blocks tape \<noteq> []"
  shows
    "(p < length (blocks tape) \<and> \<not> is_index_block (blocks tape ! p)
        \<and> block_id (blocks tape ! p) = data_id
        \<and> (\<forall>q < length (blocks tape).
              \<not> is_index_block (blocks tape ! q) \<and> block_id (blocks tape ! q) = data_id \<longrightarrow> q = p)
      \<longrightarrow> NoIndex_find_block data_id tape =
            (Inr (p,
                  seek_time_per_block tape
                    * real (if current_position tape \<le> p then p - current_position tape
                            else 2 * length (blocks tape) - 2 - current_position tape + p)
                  + (if current_position tape \<le> p
                     then (\<Sum>q = current_position tape..p.
                             real (length (data (blocks tape ! q))) / read_speed tape)
                     else (\<Sum>q = current_position tape..<length (blocks tape).
                             real (length (data (blocks tape ! q))) / read_speed tape)
                          + (\<Sum>q = 0..p. real (length (data (blocks tape ! q))) / read_speed tape))),
             tape\<lparr>current_position := p\<rparr>))
   \<and> ((\<forall>q < length (blocks tape).
          is_index_block (blocks tape ! q) \<or> block_id (blocks tape ! q) \<noteq> data_id)
      \<longrightarrow> NoIndex_find_block data_id tape =
            (Inr (npos,
                  seek_time_per_block tape
                    * real (if current_position tape = 0 then length (blocks tape) - 1
                            else 2 * length (blocks tape) - 3)
                  + (\<Sum>b\<leftarrow>blocks tape. real (length (data b)) / read_speed tape)),
             tape\<lparr>current_position :=
                    (current_position tape + length (blocks tape) - 1) mod length (blocks tape)\<rparr>))"
proof (intro conjI impI)
  let ?n = "length (blocks tape)"
  let ?h = "current_position tape"
  have h: "?h < ?n" and n: "?n \<le> max_size"
    using assms by (auto simp: tape_ok_def)
  have start: "NoIndex_find_block data_id tape = NoIndex_scan data_id ?h 0 0 tape"
    by (simp add: NoIndex_find_block_def get_current_position_def)
  {
    assume A: "p < ?n \<and> \<not> is_index_block (blocks tape ! p) \<and> block_id (blocks tape ! p) = data_id
        \<and> (\<forall>q < ?n. \<not> is_index_block (blocks tape ! q) \<and> block_id (blocks tape ! q) = data_id \<longrightarrow> q = p)"
    define k where "k = (if ?h \<le> p then p - ?h else p + ?n - ?h)"
    have p: "p < ?n" using A by blast
    have k: "k < ?n" using p h by (auto simp: k_def)
    have hk: "?h + k = (if ?h \<le> p then p else p + ?n)"
      using p h by (auto simp: k_def)
    have pk: "(?h + k) mod ?n = p"
      using p by (simp add: hk)
    have away: "(?h + j) mod ?n \<noteq> p" if "j < k" for j
    proof (cases "?h + j < ?n")
      case True
      then show ?thesis using that p h by (auto simp: k_def split: if_splits)
    next
      case False
      have "j < ?n" using that k by simp
      with False h have "(?h + j) mod ?n = ?h + j - ?n"
        by (simp add: mod_if)
      then show ?thesis using that p h False by (auto simp: k_def split: if_splits)
    qed
    have nomatch: "\<forall>j. 0 \<le> j \<and> j < k \<longrightarrow> \<not> block_matches tape data_id ((?h + j) mod ?n)"
    proof (intro allI impI notI)
      fix j assume j: "0 \<le> j \<and> j < k" and m: "block_matches tape data_id ((?h + j) mod ?n)"
      have "(?h + j) mod ?n < ?n" using assms(2) by simp
      with m A have "(?h + j) mod ?n = p" by (simp add: block_matches_def)
      with away j show False by blast
    qed
    have match: "block_matches tape data_id ((?h + k) mod ?n)"
      using A by (simp add: pk block_matches_def)
    have scan: "NoIndex_scan data_id ?h 0 0 tape =
       (Inr ((?h + k) mod ?n,
           0 + seek_time_per_block tape
                 * (real (scan_distance ?n ?h k)
                    - real (if (0::nat) = 0 then 0 else scan_distance ?n ?h (0 - 1)))
             + (\<Sum>j = 0..k. read_cost tape ((?h + j) mod ?n))),
        tape\<lparr>current_position := (?h + k) mod ?n\<rparr>)"
      using h n k match nomatch by (intro NoIndex_scan_found) simp_all
    have dist: "scan_distance ?n ?h k = (if ?h \<le> p then p - ?h else 2 * ?n - 2 - ?h + p)"
      using p h by (auto simp: scan_distance_def k_def)
    have reads: "(\<Sum>j = 0..k. read_cost tape ((?h + j) mod ?n))
        = (if ?h \<le> p then (\<Sum>q = ?h..p. read_cost tape q)
           else (\<Sum>q = ?h..<?n. read_cost tape q) + (\<Sum>q = 0..p. read_cost tape q))"
      using p h by (simp add: circular_sum [OF h k] hk)
    show "NoIndex_find_block data_id tape =
            (Inr (p,
                  seek_time_per_block tape
                    * real (if ?h \<le> p then p - ?h else 2 * ?n - 2 - ?h + p)
                  + (if ?h \<le> p
                     then (\<Sum>q = ?h..p. real (length (data (blocks tape ! q))) / read_speed tape)
                     else (\<Sum>q = ?h..<?n. real (length (data (blocks tape ! q))) / read_speed tape)
                          + (\<Sum>q = 0..p. real (length (data (blocks tape ! q))) / read_speed tape))),
             tape\<lparr>current_position := p\<rparr>)"
      unfolding start scan pk dist reads by (simp add: read_cost_def)
  }
  {
    assume A: "\<forall>q < ?n. is_index_block (blocks tape ! q) \<or> block_id (blocks tape ! q) \<noteq> data_id"
    have nomatch: "\<forall>j. 0 \<le> j \<and> j < ?n \<longrightarrow> \<not> block_matches tape data_id ((?h + j) mod ?n)"
    proof (intro allI impI)
      fix j
      have "(?h + j) mod ?n < ?n" using assms(2) by simp
      with A show "\<not> block_matches tape data_id ((?h + j) mod ?n)"
        by (auto simp: block_matches_def)
    qed
    have scan: "NoIndex_scan data_id ?h 0 0 tape =
       (Inr (npos,
           0 + seek_time_per_block tape
                 * (real (scan_distance ?n ?h (?n - 1))
                    - real (if (0::nat) = 0 then 0 else scan_distance ?n ?h (0 - 1)))
             + (\<Sum>j = 0..<?n. read_cost tape ((?h + j) mod ?n))),
        tape\<lparr>current_position := (?h + (?n - 1)) mod ?n\<rparr>)"
      using h n nomatch by (intro NoIndex_scan_absent) simp_all
    have dist: "scan_distance ?n ?h (?n - 1) = (if ?h = 0 then ?n - 1 else 2 * ?n - 3)"
      using h by (auto simp: scan_distance_def)
    have last: "?h + (?n - 1) = ?h + ?n - 1"
      using h by simp
    show "NoIndex_find_block data_id tape =
            (Inr (npos,
                  seek_time_per_block tape * real (if ?h = 0 then ?n - 1 else 2 * ?n - 3)
                  + (\<Sum>b\<leftarrow>blocks tape. real (length (data b)) / read_speed tape)),
             tape\<lparr>current_position := (?h + ?n - 1) mod ?n\<rparr>)"
      unfolding start scan dist last full_circle_sum [OF h] sum_list_read_cost by simp
  }
qed

theorem NoIndex_find_block_scan_witness:
  "tape_ok (snd (seek_to_block 2 (tape_of (map data_block [1, 2, 3, 4]))))
   \<and> blocks (snd (seek_to_block 2 (tape_of (map data_block [1, 2, 3, 4])))) \<noteq> []
   \<and> NoIndex_find_block 2 (snd (seek_to_block 2 (tape_of (map data_block [1, 2, 3, 4]))))
       = (Inr (1, 5 / 100), (tape_of (map data_block [1, 2, 3, 4]))\<lparr>current_position := 1\<rparr>)
   \<and> NoIndex_find_block 9 (snd (seek_to_block 2 (tape_of (map data_block [1, 2, 3, 4]))))
       = (Inr (npos, 5 / 100), (tape_of (map data_block [1, 2, 3, 4]))\<lparr>current_position := 1\<rparr>)"
proof -
  let ?T = "snd (seek_to_block 2 (tape_of (map data_block [1, 2, 3, 4])))"
  have T: "?T = (tape_of (map data_block [1, 2, 3, 4]))\<lparr>current_position := 2\<rparr>"
    by (simp add: seek_to_block_def blocks_tape_of)
  have ok: "tape_ok ?T"
    unfolding T by (simp add: tape_ok_def blocks_tape_of max_size_def)
  have ne: "blocks ?T \<noteq> []"
    unfolding T by (simp add: blocks_tape_of)
  have once: "1 < length (blocks ?T) \<and> \<not> is_index_block (blocks ?T ! 1)
        \<and> block_id (blocks ?T ! 1) = 2
        \<and> (\<forall>q < length (blocks ?T).
              \<not> is_index_block (blocks ?T ! q) \<and> block_id (blocks ?T ! q) = 2 \<longrightarrow> q = 1)"
    unfolding T by (auto simp: blocks_tape_of data_block_def less_Suc_eq numeral_eq_Suc)
  have none: "\<forall>q < length (blocks ?T).
          is_index_block (blocks ?T ! q) \<or> block_id (blocks ?T ! q) \<noteq> 9"
    unfolding T by (auto simp: blocks_tape_of data_block_def less_Suc_eq numeral_eq_Suc)
  show ?thesis
    using ok ne once none
      NoIndex_find_block_scan [OF ok ne, of 1 2] NoIndex_find_block_scan [OF ok ne, of 1 9]
    unfolding T
    by (simp add: blocks_tape_of position_tape_of seek_time_tape_of data_block_def)
qed

section \<open>Single steps forward\<close>

lemma size_sub_one_in_range: "0 < n \<Longrightarrow> n < 2 ^ 64 \<Longrightarrow> size_sub n 1 = n - 1"
  by (cases n) (simp_all add: size_sub_def)

lemma move_forward_one:
  assumes "current_position tape < length (blocks tape)" and "length (blocks tape) < 2 ^ 64"
  shows "\<exists>t. move_forward 1 tape =
           (Inr t, tape\<lparr>current_position :=
                          (if current_position tape + 1 < length (blocks tape)
                           then current_position tape + 1 else length (blocks tape) - 1)\<rparr>)"
proof -
  have a: "size_add (current_position tape) 1 = current_position tape + 1"
    using assms by (simp add: size_add_def)
  have b: "size_sub (length (blocks tape)) 1 = length (blocks tape) - 1"
    using assms by (intro size_sub_one_in_range) auto
  show ?thesis
    using assms(1) unfolding move_forward_def a b
    by (auto simp: seek_to_block_def Let_def)
qed

section \<open>Hierarchical strategy: building the index\<close>

lemma Hierarchical_walk_ok:
  assumes "i \<le> n" and "n = length (blocks tape)" and "n < 2 ^ 64"
    and "i < n \<longrightarrow> current_position tape = i"
  shows "\<exists>ds t c. Hierarchical_walk n i data_blocks time tape
           = (Inr (ds, t), tape\<lparr>current_position := c\<rparr>)"
  using assms
proof (induction "n - i" arbitrary: i data_blocks time tape)
  case 0
  then have "i = n" by simp
  then have "Hierarchical_walk n i data_blocks time tape = (Inr (data_blocks, time), tape)"
    by (subst Hierarchical_walk.simps) simp
  moreover have "tape = tape\<lparr>current_position := current_position tape\<rparr>" by simp
  ultimately show ?case by metis
next
  case (Suc d)
  then have i: "i < n" "current_position tape = i" by auto
  have b: "size_sub n 1 = n - 1"
    using i Suc.prems by (intro size_sub_one_in_range) auto
  obtain block rt where rd: "read_current_block tape = (Inr (block, rt), tape)"
    using i Suc.prems by (simp add: read_current_block_def Let_def)
  let ?ds = "if \<not> is_index_block block then data_blocks @ [(block_id block, i)] else data_blocks"
  show ?case
  proof (cases "i < n - 1")
    case True
    obtain mt where mv: "move_forward 1 tape = (Inr mt, tape\<lparr>current_position := i + 1\<rparr>)"
      using move_forward_one [of tape] i Suc.prems True by auto
    have "Hierarchical_walk n i data_blocks time tape
        = Hierarchical_walk n (i + 1) ?ds (time + rt + mt) (tape\<lparr>current_position := i + 1\<rparr>)"
      using i True mv b by (subst Hierarchical_walk.simps) (simp add: rd Let_def)
    moreover have "\<exists>ds t c. Hierarchical_walk n (i + 1) ?ds (time + rt + mt) (tape\<lparr>current_position := i + 1\<rparr>)
           = (Inr (ds, t), tape\<lparr>current_position := i + 1\<rparr>\<lparr>current_position := c\<rparr>)"
      using Suc.hyps(2) Suc.prems i by (intro Suc.hyps(1)) auto
    ultimately show ?thesis by auto
  next
    case False
    have "Hierarchical_walk n i data_blocks time tape
        = Hierarchical_walk n (i + 1) ?ds (time + rt) tape"
      using i False b by (subst Hierarchical_walk.simps) (simp add: rd Let_def)
    moreover have "\<exists>ds t c. Hierarchical_walk n (i + 1) ?ds (time + rt) tape
           = (Inr (ds, t), tape\<lparr>current_position := c\<rparr>)"
      using Suc.hyps(2) Suc.prems i False by (intro Suc.hyps(1)) auto
    ultimately show ?thesis by auto
  qed
qed

lemma Hierarchical_fill_ok:
  assumes "0 < l1" and "0 < l2"
  shows "\<exists>m. Hierarchical_fill l1 l2 data_blocks i imap = Inr m"
proof (induction "length data_blocks - i" arbitrary: i imap)
  case 0
  then show ?case by (subst Hierarchical_fill.simps) simp
next
  case (Suc d)
  then have "i < length data_blocks" by simp
  moreover have "\<exists>m. Hierarchical_fill l1 l2 data_blocks (i + 1) m' = Inr m" for m'
    using Suc.hyps(2) by (intro Suc.hyps(1)) simp
  ultimately show ?case
    using assms by (subst Hierarchical_fill.simps) (simp add: Let_def split: prod.split)
qed


lemma Hierarchical_build_index_result:
  assumes "blocks tape \<noteq> []" and "tape_ok tape"
  shows "blocks (snd (snd (Hierarchical_build_index s tape)))
           = blocks tape @ [\<lparr>block_id = 1000000, data = [], is_index_block = True\<rparr>,
                            \<lparr>block_id = 2000000, data = [], is_index_block = True\<rparr>]
       \<and> (0 < level1_interval s \<and> 0 < level2_interval s \<longrightarrow>
            \<not> isl (fst (Hierarchical_build_index s tape))
            \<and> current_position (snd (snd (Hierarchical_build_index s tape))) = current_position tape)"
proof -
  let ?n = "length (blocks tape)"
  let ?tape0 = "tape\<lparr>current_position := 0\<rparr>"
  have n: "0 < ?n" "?n < 2 ^ 64" and h: "current_position tape < ?n"
    using assms by (auto simp: tape_ok_def max_size_def)
  obtain st where seek0: "seek_to_block 0 tape = (Inr st, ?tape0)"
    using n by (simp add: seek_to_block_def Let_def)
  have "\<exists>ds t c. Hierarchical_walk ?n 0 [] (0 + st) ?tape0
       = (Inr (ds, t), ?tape0\<lparr>current_position := c\<rparr>)"
    by (rule Hierarchical_walk_ok) (use n in simp_all)
  then obtain ds t c where walk: "Hierarchical_walk ?n 0 [] (0 + st) ?tape0
       = (Inr (ds, t), ?tape0\<lparr>current_position := c\<rparr>)"
    by blast
  let ?b2 = "\<lparr>block_id = 1000000, data = [], is_index_block = True\<rparr>"
  let ?b1 = "\<lparr>block_id = 2000000, data = [], is_index_block = True\<rparr>"
  let ?tapeW = "tape\<lparr>current_position := c, blocks := blocks tape @ [?b2, ?b1]\<rparr>"
  let ?s0 = "s\<lparr>hier_index_map := []\<rparr>"
  have walk': "Hierarchical_walk ?n 0 [] (0 + st) ?tape0 = (Inr (ds, t), tape\<lparr>current_position := c\<rparr>)"
    using walk by simp
  have eq: "Hierarchical_build_index s tape =
     (case Hierarchical_fill (level1_interval s) (level2_interval s) ds 0 [] of
        Inl e \<Rightarrow> (Inl e, ?s0, ?tapeW)
      | Inr imap \<Rightarrow>
          (case seek_to_block (current_position tape) ?tapeW of
             (Inl e, tape) \<Rightarrow> (Inl e, ?s0\<lparr>hier_index_map := imap\<rparr>, tape)
           | (Inr seek_time, tape) \<Rightarrow>
               (Inr (t + seek_time), ?s0\<lparr>hier_index_map := imap\<rparr>, tape)))"
    unfolding Hierarchical_build_index_def get_block_count_def get_current_position_def Let_def
      seek0 prod.case sum.case walk' write_block_def
    by (simp cong: sum.case_cong prod.case_cong)
  show ?thesis
  proof (cases "Hierarchical_fill (level1_interval s) (level2_interval s) ds 0 []")
    case (Inl e)
    have "\<not> (0 < level1_interval s \<and> 0 < level2_interval s)"
      using Hierarchical_fill_ok [of "level1_interval s" "level2_interval s" ds 0 "[]"] Inl by auto
    then show ?thesis
      unfolding eq Inl by simp
  next
    case (Inr m)
    show ?thesis
      unfolding eq Inr using h by (simp add: seek_to_block_def Let_def)
  qed
qed

text \<open>
  C8. On a non-empty reachable device, \<open>HierarchicalIndexStrategy::build_index\<close> leaves
  the block sequence equal to the one before the call followed by exactly two blocks: the
  level-2 summary (identifier 1000000) and then the level-1 summary (identifier 2000000),
  both with empty payload and marked as index blocks. With positive intervals the call
  returns without error.
\<close>

theorem Hierarchical_build_index_appends_two:
  assumes "blocks tape \<noteq> []" and "tape_ok tape"
  shows "blocks (snd (snd (Hierarchical_build_index s tape)))
           = blocks tape @ [\<lparr>block_id = 1000000, data = [], is_index_block = True\<rparr>,
                            \<lparr>block_id = 2000000, data = [], is_index_block = True\<rparr>]
       \<and> (0 < level1_interval s \<and> 0 < level2_interval s \<longrightarrow>
            \<not> isl (fst (Hierarchical_build_index s tape)))"
  using Hierarchical_build_index_result [OF assms, of s] by blast

theorem Hierarchical_build_index_appends_two_witness:
  "blocks (tape_of (map data_block [1, 2, 3])) \<noteq> []
   \<and> tape_ok (tape_of (map data_block [1, 2, 3]))
   \<and> 0 < level1_interval \<lparr>level1_interval = 100, level2_interval = 10, hier_index_map = []\<rparr>
   \<and> 0 < level2_interval \<lparr>level1_interval = 100, level2_interval = 10, hier_index_map = []\<rparr>
   \<and> blocks (snd (snd (Hierarchical_build_index
          \<lparr>level1_interval = 100, level2_interval = 10, hier_index_map = []\<rparr>
          (tape_of (map data_block [1, 2, 3])))))
       = [data_block 1, data_block 2, data_block 3,
          \<lparr>block_id = 1000000, data = [], is_index_block = True\<rparr>,
          \<lparr>block_id = 2000000, data = [], is_index_block = True\<rparr>]
   \<and> \<not> isl (fst (Hierarchical_build_index
          \<lparr>level1_interval = 100, level2_interval = 10, hier_index_map = []\<rparr>
          (tape_of (map data_block [1, 2, 3]))))"
proof -
  have ne: "blocks (tape_of (map data_block [1, 2, 3])) \<noteq> []"
    by (simp add: blocks_tape_of)
  have ok: "tape_ok (tape_of (map data_block [1, 2, 3]))"
    by (rule tape_ok_tape_of) (simp add: max_size_def)
  show ?thesis
    using ne ok Hierarchical_build_index_appends_two [OF ne ok,
        of "\<lparr>level1_interval = 100, level2_interval = 10, hier_index_map = []\<rparr>"]
    by (simp add: blocks_tape_of)
qed


section \<open>Fixed-interval strategy: building the index\<close>

lemma filter_drop_le: "length (filter P (drop k ys)) \<le> length (filter P ys)"
proof -
  have "length (filter P ys) = length (filter P (take k ys)) + length (filter P (drop k ys))"
    by (metis append_take_drop_id filter_append length_append)
  then show ?thesis by simp
qed

lemma filter_drop_mono:
  assumes "c \<le> c'"
  shows "length (filter P (drop c' xs)) \<le> length (filter P (drop c xs))"
proof -
  have "drop c' xs = drop (c' - c) (drop c xs)"
    using assms by simp
  then show ?thesis by (simp only: filter_drop_le)
qed

lemma filter_drop_Suc:
  assumes "c < length xs" and "P (xs ! c)"
  shows "length (filter P (drop c xs)) = Suc (length (filter P (drop (Suc c) xs)))"
proof -
  have "drop c xs = xs ! c # drop (Suc c) xs"
    using assms(1) by (simp add: Cons_nth_drop_Suc)
  then show ?thesis using assms(2) by simp
qed

lemma data_ahead_forward:
  assumes "current_position tape \<le> c"
  shows "data_ahead (tape\<lparr>current_position := c\<rparr>) \<le> data_ahead tape"
  using assms by (simp add: data_ahead_def filter_drop_mono)

lemma move_forward_one_ahead:
  assumes "current_position tape < length (blocks tape)" and "length (blocks tape) < 2 ^ 64"
  shows "\<exists>t tape'. move_forward 1 tape = (Inr t, tape')
           \<and> blocks tape' = blocks tape
           \<and> current_position tape' < length (blocks tape')
           \<and> data_ahead tape' \<le> data_ahead tape"
proof -
  let ?c = "if current_position tape + 1 < length (blocks tape)
            then current_position tape + 1 else length (blocks tape) - 1"
  obtain t where "move_forward 1 tape = (Inr t, tape\<lparr>current_position := ?c\<rparr>)"
    using move_forward_one [OF assms] by blast
  moreover have "current_position tape \<le> ?c" using assms(1) by auto
  then have "data_ahead (tape\<lparr>current_position := ?c\<rparr>) \<le> data_ahead tape"
    by (rule data_ahead_forward)
  moreover have "?c < length (blocks tape)" using assms(1) by auto
  ultimately show ?thesis by auto
qed

lemma FixedInterval_index_data_block_ok:
  assumes "0 < ivl" and "current_position tape < length (blocks tape)"
    and "length (blocks tape) + data_ahead tape < 2 ^ 64"
    and "block = blocks tape ! current_position tape"
  shows "\<exists>time' imap' tape'.
           FixedInterval_index_data_block ivl i block imap time tape = (Inr time', imap', tape')
         \<and> current_position tape' < length (blocks tape')
         \<and> length (blocks tape') + data_ahead tape' \<le> length (blocks tape) + data_ahead tape
         \<and> length (blocks tape) \<le> length (blocks tape')
         \<and> (length (blocks tape') \<noteq> length (blocks tape) \<longrightarrow>
               length (blocks tape') = length (blocks tape) + 1 \<and> data_ahead tape' < data_ahead tape)"
proof (cases "\<not> is_index_block block \<and> length (AList.update (block_id block) i imap) mod ivl = 0")
  case False
  then have "FixedInterval_index_data_block ivl i block imap time tape
      = (Inr time, (if \<not> is_index_block block then AList.update (block_id block) i imap else imap), tape)"
    using assms(1) by (auto simp: FixedInterval_index_data_block_def Let_def)
  then show ?thesis using assms(2) by auto
next
  case True
  let ?c = "current_position tape"
  let ?ib = "\<lparr>block_id = (block_id block + 1000000) mod 2 ^ 64, data = [], is_index_block = True\<rparr>"
  let ?tape1 = "tape\<lparr>blocks := blocks tape @ [?ib]\<rparr>"
  let ?tape2 = "?tape1\<lparr>current_position := ?c + 1\<rparr>"
  have ahead: "data_ahead tape = Suc (length (filter (\<lambda>b. \<not> is_index_block b) (drop (Suc ?c) (blocks tape))))"
    unfolding data_ahead_def using assms(2,4) True by (intro filter_drop_Suc) auto
  have len1: "length (blocks ?tape1) < 2 ^ 64"
    using assms(3) ahead by simp
  obtain mt where mv: "move_forward 1 ?tape1 = (Inr mt, ?tape2)"
    using move_forward_one [of ?tape1] assms(2) len1 by auto
  have ahead2: "data_ahead ?tape2 = length (filter (\<lambda>b. \<not> is_index_block b) (drop (Suc ?c) (blocks tape)))"
    using assms(2) by (simp add: data_ahead_def)
  have "FixedInterval_index_data_block ivl i block imap time tape
      = (Inr (time + real (length (data ?ib)) / write_speed tape + mt),
         AList.update (block_id block) i imap, ?tape2)"
    using assms(1) True mv
    by (simp add: FixedInterval_index_data_block_def write_block_def Let_def)
  then show ?thesis
    using assms(2) ahead ahead2 by auto
qed


lemma FixedInterval_build_loop_step:
  assumes "0 < ivl" and "i < length (blocks tape)"
    and "current_position tape < length (blocks tape)"
    and "length (blocks tape) + data_ahead tape < 2 ^ 64"
  shows "\<exists>imap' time' tape'.
           FixedInterval_build_loop ivl i imap time tape
             = FixedInterval_build_loop ivl (i + 1) imap' time' tape'
         \<and> current_position tape' < length (blocks tape')
         \<and> length (blocks tape') + data_ahead tape' \<le> length (blocks tape) + data_ahead tape
         \<and> length (blocks tape) \<le> length (blocks tape')
         \<and> (length (blocks tape') \<noteq> length (blocks tape) \<longrightarrow>
               length (blocks tape') = length (blocks tape) + 1 \<and> data_ahead tape' < data_ahead tape)"
proof -
  let ?block = "blocks tape ! current_position tape"
  let ?rt = "real (length (data ?block)) / read_speed tape"
  have rd: "read_current_block tape = (Inr (?block, ?rt), tape)"
    using assms(3) by (simp add: read_current_block_def Let_def)
  obtain time1 imap1 tape1 where
    rec: "FixedInterval_index_data_block ivl i ?block imap (time + ?rt) tape = (Inr time1, imap1, tape1)"
    and c1: "current_position tape1 < length (blocks tape1)"
    and b1: "length (blocks tape1) + data_ahead tape1 \<le> length (blocks tape) + data_ahead tape"
    and l1: "length (blocks tape) \<le> length (blocks tape1)"
    and g1: "length (blocks tape1) \<noteq> length (blocks tape) \<longrightarrow>
               length (blocks tape1) = length (blocks tape) + 1 \<and> data_ahead tape1 < data_ahead tape"
    using FixedInterval_index_data_block_ok [OF assms(1,3,4) refl, of i imap "time + ?rt"] by blast
  have len1: "length (blocks tape1) < 2 ^ 64"
    using b1 assms(4) by linarith
  show ?thesis
  proof (cases "i < size_sub (get_block_count tape1) 1")
    case True
    obtain mt tape2 where mv: "move_forward 1 tape1 = (Inr mt, tape2)"
      and bl2: "blocks tape2 = blocks tape1"
      and c2: "current_position tape2 < length (blocks tape2)"
      and a2: "data_ahead tape2 \<le> data_ahead tape1"
      using move_forward_one_ahead [OF c1 len1] by blast
    have "FixedInterval_build_loop ivl i imap time tape
        = FixedInterval_build_loop ivl (i + 1) imap1 (time1 + mt) tape2"
      using assms(2) True mv
      by (subst FixedInterval_build_loop.simps) (simp add: get_block_count_def rd rec)
    then show ?thesis
      using c2 bl2 a2 b1 l1 g1
      by (intro exI [of _ imap1] exI [of _ "time1 + mt"] exI [of _ tape2] conjI) auto
  next
    case False
    have "FixedInterval_build_loop ivl i imap time tape
        = FixedInterval_build_loop ivl (i + 1) imap1 time1 tape1"
      using assms(2) False
      by (subst FixedInterval_build_loop.simps) (simp add: get_block_count_def rd rec)
    then show ?thesis
      using c1 b1 l1 g1
      by (intro exI [of _ imap1] exI [of _ time1] exI [of _ tape1] conjI) auto
  qed
qed

lemma FixedInterval_build_loop_ok:
  assumes "0 < ivl" and "current_position tape < length (blocks tape)"
    and "length (blocks tape) + data_ahead tape < 2 ^ 64"
  shows "\<exists>time' imap' tape'.
           FixedInterval_build_loop ivl i imap time tape = Some (Inr time', imap', tape')
         \<and> length (blocks tape) \<le> length (blocks tape')"
  using assms(2,3)
proof (induction "length (blocks tape) - i + data_ahead tape" arbitrary: i imap time tape
       rule: less_induct)
  case less
  show ?case
  proof (cases "i < length (blocks tape)")
    case False
    then have "FixedInterval_build_loop ivl i imap time tape = Some (Inr time, imap, tape)"
      by (subst FixedInterval_build_loop.simps) (simp add: get_block_count_def)
    then show ?thesis by simp
  next
    case True
    obtain imap1 time1 tape1 where
      step: "FixedInterval_build_loop ivl i imap time tape
               = FixedInterval_build_loop ivl (i + 1) imap1 time1 tape1"
      and c1: "current_position tape1 < length (blocks tape1)"
      and b1: "length (blocks tape1) + data_ahead tape1 \<le> length (blocks tape) + data_ahead tape"
      and l1: "length (blocks tape) \<le> length (blocks tape1)"
      and g1: "length (blocks tape1) \<noteq> length (blocks tape) \<longrightarrow>
               length (blocks tape1) = length (blocks tape) + 1 \<and> data_ahead tape1 < data_ahead tape"
      using FixedInterval_build_loop_step [OF assms(1) True less.prems, of imap time] by blast
    have dec: "length (blocks tape1) - (i + 1) + data_ahead tape1
             < length (blocks tape) - i + data_ahead tape"
      using True b1 l1 g1 by (cases "length (blocks tape1) = length (blocks tape)") auto
    have b1': "length (blocks tape1) + data_ahead tape1 < 2 ^ 64"
      using b1 less.prems(2) by linarith
    obtain time' imap' tape' where
      "FixedInterval_build_loop ivl (i + 1) imap1 time1 tape1 = Some (Inr time', imap', tape')"
      "length (blocks tape1) \<le> length (blocks tape')"
      using less.hyps [OF dec c1 b1'] by blast
    then show ?thesis
      using step l1 by auto
  qed
qed

lemma data_ahead_le: "data_ahead tape \<le> length (blocks tape)"
  unfolding data_ahead_def
  by (rule order_trans [OF length_filter_le]) simp

lemma FixedInterval_build_index_ok:
  assumes "blocks tape \<noteq> []" and "tape_ok tape" and "0 < interval s"
  shows "\<exists>time s' tape'. FixedInterval_build_index s tape = Some (Inr time, s', tape')
           \<and> current_position tape' = current_position tape"
proof -
  let ?n = "length (blocks tape)"
  let ?tape0 = "tape\<lparr>current_position := 0\<rparr>"
  have n: "0 < ?n" "?n \<le> max_size" and h: "current_position tape < ?n"
    using assms by (auto simp: tape_ok_def)
  obtain st where seek0: "seek_to_block 0 tape = (Inr st, ?tape0)"
    using n by (simp add: seek_to_block_def Let_def)
  have "data_ahead ?tape0 \<le> ?n"
    using data_ahead_le [of ?tape0] by simp
  then have bound: "length (blocks ?tape0) + data_ahead ?tape0 < 2 ^ 64"
    using n(2) by (simp add: max_size_def)
  have "\<exists>time' imap' tape'.
           FixedInterval_build_loop (interval s) 0 [] st ?tape0 = Some (Inr time', imap', tape')
         \<and> length (blocks ?tape0) \<le> length (blocks tape')"
    by (rule FixedInterval_build_loop_ok) (use assms(3) n bound in simp_all)
  then obtain time1 imap1 tape1 where
    loop: "FixedInterval_build_loop (interval s) 0 [] st ?tape0 = Some (Inr time1, imap1, tape1)"
    and l1: "?n \<le> length (blocks tape1)"
    by auto
  have ret: "seek_to_block (current_position tape) tape1
      = (Inr (real (size_of_int \<bar>int64_of (current_position tape) - int64_of (current_position tape1)\<bar>)
               * seek_time_per_block tape1),
         tape1\<lparr>current_position := current_position tape\<rparr>)"
    using h l1 by (simp add: seek_to_block_def Let_def)
  show ?thesis
    unfolding FixedInterval_build_index_def get_current_position_def Let_def
    by (simp add: seek0 loop ret)
qed

section \<open>Head position after building an index\<close>

lemma create_strategy_ok: "create_strategy type param1 param2 = Inr s \<Longrightarrow> strategy_ok s"
  by (auto simp: create_strategy_def split: if_splits)

text \<open>
  C9. For each of the three strategies, with the positive intervals the factory gives
  them, \<open>build_index\<close> on a non-empty reachable device returns without error and the
  head position afterwards is the head position before the call.
\<close>

theorem build_index_restores_head:
  assumes "blocks tape \<noteq> []" and "tape_ok tape" and "strategy_ok s"
  shows "\<exists>time s' tape'. build_index s tape = Some (Inr time, s', tape')
           \<and> get_current_position tape' = get_current_position tape"
proof (cases s)
  case NoIndex
  then show ?thesis by (simp add: NoIndex_build_index_def)
next
  case (FixedInterval f)
  with assms(3) have "0 < interval f" by simp
  from FixedInterval_build_index_ok [OF assms(1,2) this]
  show ?thesis
    using FixedInterval by (auto simp: get_current_position_def)
next
  case (Hierarchical h)
  with assms(3) have pos: "0 < level1_interval h \<and> 0 < level2_interval h" by simp
  obtain r s' tape' where res: "Hierarchical_build_index h tape = (r, s', tape')"
    by (cases "Hierarchical_build_index h tape") auto
  from Hierarchical_build_index_result [OF assms(1,2), of h] pos res
  have "\<not> isl r" "current_position tape' = current_position tape" by auto
  then obtain time where "r = Inr time" by (cases r) auto
  then show ?thesis
    using Hierarchical res \<open>current_position tape' = current_position tape\<close>
    by (simp add: get_current_position_def)
qed

theorem build_index_restores_head_witness:
  "blocks (snd (seek_to_block 1 (tape_of (map data_block [1, 2, 3])))) \<noteq> []
   \<and> tape_ok (snd (seek_to_block 1 (tape_of (map data_block [1, 2, 3]))))
   \<and> strategy_ok NoIndex
   \<and> strategy_ok (FixedInterval \<lparr>interval = 2, index_map = []\<rparr>)
   \<and> strategy_ok (Hierarchical \<lparr>level1_interval = 100, level2_interval = 10, hier_index_map = []\<rparr>)
   \<and> (\<exists>time s' tape'.
         build_index NoIndex (snd (seek_to_block 1 (tape_of (map data_block [1, 2, 3]))))
           = Some (Inr time, s', tape')
         \<and> get_current_position tape' = 1)
   \<and> (\<exists>time s' tape'.
         build_index (FixedInterval \<lparr>interval = 2, index_map = []\<rparr>)
             (snd (seek_to_block 1 (tape_of (map data_block [1, 2, 3]))))
           = Some (Inr time, s', tape')
         \<and> get_current_position tape' = 1)
   \<and> (\<exists>time s' tape'.
         build_index
             (Hierarchical \<lparr>level1_interval = 100, level2_interval = 10, hier_index_map = []\<rparr>)
             (snd (seek_to_block 1 (tape_of (map data_block [1, 2, 3]))))
           = Some (Inr time, s', tape')
         \<and> get_current_position tape' = 1)"
proof -
  let ?T = "snd (seek_to_block 1 (tape_of (map data_block [1, 2, 3])))"
  have T: "?T = (tape_of (map data_block [1, 2, 3]))\<lparr>current_position := 1\<rparr>"
    by (simp add: seek_to_block_def blocks_tape_of)
  have ne: "blocks ?T \<noteq> []"
    unfolding T by (simp add: blocks_tape_of)
  have ok: "tape_ok ?T"
    unfolding T by (simp add: tape_ok_def blocks_tape_of max_size_def)
  have pos: "get_current_position ?T = 1"
    unfolding T by (simp add: get_current_position_def)
  have s1: "strategy_ok NoIndex"
    and s2: "strategy_ok (FixedInterval \<lparr>interval = 2, index_map = []\<rparr>)"
    and s3: "strategy_ok (Hierarchical \<lparr>level1_interval = 100, level2_interval = 10, hier_index_map = []\<rparr>)"
    by simp_all
  have r: "\<exists>time s' tape'. build_index s ?T = Some (Inr time, s', tape')
           \<and> get_current_position tape' = 1" if "strategy_ok s" for s
    using build_index_restores_head [OF ne ok that] unfolding pos .
  show ?thesis
    using ne ok s1 s2 s3 r [OF s1] r [OF s2] r [OF s3] by blast
qed

section \<open>Fixed-interval strategy: the blocks the build loop skips\<close>

text \<open>
  \<open>build_index\<close> appends each index block at the end of the device
  (\<open>write_block\<close> is \<open>push_back\<close>) and then calls \<open>move_forward(1)\<close>, before the
  \<open>move_forward(1)\<close> that every round ends with. The head therefore passes over the
  next block without reading it, while the loop counter, which is what the map records as
  the position, advances by one only.
\<close>

lemma tape_of_eq:
  "tape_of bs = \<lparr>block_size = 4096, read_speed = 1024 * 1024, write_speed = 512 * 1024,
                  seek_time_per_block = 1 / 100, current_position = 0, blocks = bs\<rparr>"
proof -
  have "fold (\<lambda>b tape. snd (write_block b tape)) bs t = t\<lparr>blocks := blocks t @ bs\<rparr>" for t
    by (induction bs arbitrary: t) (simp_all add: write_block_def)
  then show ?thesis by (simp add: tape_of_def TapeDevice_new_def)
qed

lemmas FixedInterval_eval =
  FixedInterval_build_index_def FixedInterval_build_loop.simps FixedInterval_index_data_block_def
  FixedInterval_find_block_def tape_of_eq write_block_def data_block_def move_forward_def
  seek_to_block_def read_current_block_def get_block_count_def get_current_position_def
  size_add_def size_sub_def int64_of_def size_of_int_def Let_def nth_append

text \<open>
  Six data blocks with identifiers 1 to 6 and interval 2: the blocks 3 and 6 are never
  read, block 4 is recorded at position 2 and block 5 at position 3, and two index blocks
  are appended.
\<close>

lemma six_blocks_interval_2:
  "map_option (\<lambda>(r, s, t). (isl r, index_map s, map block_id (blocks t),
                              fst (FixedInterval_find_block s 4 t),
                              fst (FixedInterval_find_block s 3 t)))
     (FixedInterval_build_index \<lparr>interval = 2, index_map = []\<rparr>
        (tape_of (map data_block [1, 2, 3, 4, 5, 6])))
   = Some (False, [(1, 0), (2, 1), (4, 2), (5, 3)], [1, 2, 3, 4, 5, 6, 1000002, 1000005],
           Inr (npos, 2 / 100), Inr (npos, 0))"
  by (simp add: FixedInterval_eval)

text \<open>
  The scenario of the specification: 100 data blocks with identifiers 1 to 100, at
  positions 0 to 99, and interval 10.
\<close>

lemma scenario_100_blocks_interval_10:
  "map_option (\<lambda>(r, s, t). (isl r, length (index_map s), length (blocks t), blocks t ! 56,
                              fst (FixedInterval_find_block s 57 t)))
     (FixedInterval_build_index \<lparr>interval = 10, index_map = []\<rparr>
        (tape_of (map data_block [1..<101])))
   = Some (False, 91, 109, data_block 57, Inr (npos, 51 / 100))"
  by (simp add: FixedInterval_eval del: One_nat_def)

text \<open>
  C1. In the scenario, \<open>build_index\<close> returns without error, the data block with
  identifier 57 is on the device (at position 56), and \<open>find_block\<close> on 57 returns
  \<open>npos\<close>, after a seek to position 51 where the block with identifier 52 is stored.
\<close>

theorem scenario_find_block_57_not_found:
  "map_option (\<lambda>(r, s, t). (isl r, blocks t ! 56, fst (FixedInterval_find_block s 57 t)))
     (FixedInterval_build_index \<lparr>interval = 10, index_map = []\<rparr>
        (tape_of (map data_block [1..<101])))
   = Some (False, data_block 57, Inr (npos, 51 / 100))"
proof (cases "FixedInterval_build_index \<lparr>interval = 10, index_map = []\<rparr>
        (tape_of (map data_block [1..<101]))")
  case None
  with scenario_100_blocks_interval_10 show ?thesis by simp
next
  case (Some x)
  with scenario_100_blocks_interval_10 show ?thesis by (cases x) simp
qed

text \<open>
  C2. In the scenario, \<open>build_index\<close> returns without error with 91 entries in the
  index map, not 100, and with 9 index blocks appended to the 100 data blocks, not 10.
\<close>

theorem scenario_map_size_91_index_blocks_9:
  "map_option (\<lambda>(r, s, t). (isl r, length (index_map s), length (blocks t) - 100))
     (FixedInterval_build_index \<lparr>interval = 10, index_map = []\<rparr>
        (tape_of (map data_block [1..<101])))
   = Some (False, 91, 9)"
proof (cases "FixedInterval_build_index \<lparr>interval = 10, index_map = []\<rparr>
        (tape_of (map data_block [1..<101]))")
  case None
  with scenario_100_blocks_interval_10 show ?thesis by simp
next
  case (Some x)
  with scenario_100_blocks_interval_10 show ?thesis by (cases x) simp
qed

end
